theory Spec2Isabelle
  imports Main
begin

section \<open>The popup handler of \<open>app/main.ts\<close>\<close>

text \<open>
  \<open>IPopupEventData\<close> (declared in \<open>@interfaces/commonTypes\<close>) is read by the handler
  through two fields only. \<open>championId\<close> is a JavaScript number that may be missing, so
  it is an optional integer; \<open>noCache\<close> is only tested for truthiness, so a missing
  flag is \<open>False\<close>.
\<close>

record popup_event_data =
  championId :: "int option"
  noCache :: bool

text \<open>
  Of a \<open>BrowserWindow\<close> the handlers read and change the visibility only
  (\<open>show\<close>, \<open>hide\<close>, \<open>isVisible\<close>).
\<close>

record browser_window =
  visible :: bool

text \<open>A thrown JavaScript exception or a rejected promise.\<close>

datatype exn = Exn string

text \<open>
  The module variables the handlers share: \<open>let lastChampion = 0\<close>,
  \<open>let mainWindow: BrowserWindow | null\<close> and \<open>let popupWindow: BrowserWindow | null\<close>.
\<close>

record main_state =
  lastChampion :: int
  mainWindow :: "browser_window option"
  popupWindow :: "browser_window option"

text \<open>
  \<open>createPopupWindow\<close>, lines 118 to 160. Line 119 reads \<open>mainWindow!.getPosition()\<close>:
  without a main window this throws a \<open>TypeError\<close>. With a main window the popup is
  built with \<open>show: false\<close> and returned once its page is loaded; building the window
  and loading the page are Electron's and are taken to succeed.
\<close>

definition createPopupWindow :: "main_state \<Rightarrow> exn + browser_window" where
  "createPopupWindow s =
     (case mainWindow s of
        None \<Rightarrow> Inl (Exn ''TypeError: Cannot read property getPosition of null'')
      | Some m \<Rightarrow> Inr \<lparr>visible = False\<rparr>)"

text \<open>
  \<open>onShowPopup\<close>, lines 208 to 236. The result is the new state and the list of
  champion ids for which the handler goes past the guard, shows the popup and schedules
  the \<open>for-popup\<close> message carrying that id: the popup emissions of the call. Line 215
  stores the id before line 217 creates a missing popup window, so when the creation
  throws the id is remembered, nothing is shown and nothing is emitted.
\<close>

definition onShowPopup :: "popup_event_data \<Rightarrow> main_state \<Rightarrow> main_state \<times> int list" where
  "onShowPopup data s =
     (let s1 = (if noCache data then s\<lparr>lastChampion := 0\<rparr> else s) in
      case championId data of
        None \<Rightarrow> (s1, [])
      | Some c \<Rightarrow>
          if c = 0 \<or> lastChampion s1 = c then (s1, [])
          else
            (let s2 = s1\<lparr>lastChampion := c\<rparr> in
             case popupWindow s2 of
               Some w \<Rightarrow> (s2\<lparr>popupWindow := Some (w\<lparr>visible := True\<rparr>)\<rparr>, [c])
             | None \<Rightarrow>
                 (case createPopupWindow s2 of
                    Inl x \<Rightarrow> (s2, [])
                  | Inr w \<Rightarrow> (s2\<lparr>popupWindow := Some (w\<lparr>visible := True\<rparr>)\<rparr>, [c]))))"

text \<open>The listener of \<open>LcuEvent.MatchedStartedOrTerminated\<close>, lines 598 to 606.\<close>

definition onMatchedStartedOrTerminated :: "main_state \<Rightarrow> main_state" where
  "onMatchedStartedOrTerminated s =
     (case popupWindow s of
        None \<Rightarrow> s
      | Some w \<Rightarrow>
          s\<lparr>lastChampion := 0,
            popupWindow := Some (if visible w then w\<lparr>visible := False\<rparr> else w)\<rparr>)"

text \<open>The \<open>hidePopup\<close> listener (line 328) and the popup's \<open>closed\<close> listener (line 151).\<close>

definition onHidePopup :: "main_state \<Rightarrow> main_state" where
  "onHidePopup s =
     (case popupWindow s of
        None \<Rightarrow> s
      | Some w \<Rightarrow> s\<lparr>popupWindow := Some (w\<lparr>visible := False\<rparr>)\<rparr>)"

definition onPopupClosed :: "main_state \<Rightarrow> main_state" where
  "onPopupClosed s = s\<lparr>popupWindow := None\<rparr>"

text \<open>
  The main window's \<open>closed\<close> listener, lines 104 to 109, clears both variables; the
  listeners of the watcher stay registered.
\<close>

definition onMainWindowClosed :: "main_state \<Rightarrow> main_state" where
  "onMainWindowClosed s = s\<lparr>mainWindow := None, popupWindow := None\<rparr>"

text \<open>
  The events that reach these handlers. \<open>LcuEvent.SelectedChampion\<close> and the
  \<open>showPopup\<close> message both call \<open>onShowPopup\<close> with their payload.
\<close>

datatype event =
    SelectedChampion popup_event_data
  | MatchedStartedOrTerminated
  | HidePopup
  | PopupClosed
  | MainWindowClosed

fun step :: "event \<Rightarrow> main_state \<Rightarrow> main_state \<times> int list" where
  "step (SelectedChampion data) s = onShowPopup data s"
| "step MatchedStartedOrTerminated s = (onMatchedStartedOrTerminated s, [])"
| "step HidePopup s = (onHidePopup s, [])"
| "step PopupClosed s = (onPopupClosed s, [])"
| "step MainWindowClosed s = (onMainWindowClosed s, [])"

text \<open>Events are handled one after the other; the emissions are collected in order.\<close>

fun run :: "main_state \<Rightarrow> event list \<Rightarrow> main_state \<times> int list" where
  "run s [] = (s, [])"
| "run s (e # es) =
     (let (s1, out1) = step e s; (s2, out2) = run s1 es in (s2, out1 @ out2))"

text \<open>
  The state when the listeners are registered: \<open>lastChampion\<close> is 0, the main window has
  been created (line 592) and the popup window has been created hidden (line 593). The
  handlers here never read whether the main window is visible.
\<close>

definition initial_state :: main_state where
  "initial_state =
     \<lparr>lastChampion = 0, mainWindow = Some \<lparr>visible = True\<rparr>,
      popupWindow = Some \<lparr>visible = False\<rparr>\<rparr>"

text \<open>A champion-selection signal that carries an id and no cache reset.\<close>

definition champSelect :: "int \<Rightarrow> event" where
  "champSelect c = SelectedChampion \<lparr>championId = Some c, noCache = False\<rparr>"




section \<open>The \<open>PrepareSourceData\<close> handler of \<open>app/main.ts\<close>\<close>

subsection \<open>Strings\<close>

text \<open>
  \<open>source.toUpperCase()\<close>. Source names are npm package names under \<open>@champ-r/\<close>,
  so ASCII: the letters \<open>a\<close> to \<open>z\<close> are mapped to \<open>A\<close> to \<open>Z\<close> and every other
  character is kept.
\<close>

definition toUpperCase_char :: "char \<Rightarrow> char" where
  "toUpperCase_char c =
     (let n = (of_char c :: nat) in if 97 \<le> n \<and> n \<le> 122 then char_of (n - 32) else c)"

definition toUpperCase :: "string \<Rightarrow> string" where
  "toUpperCase s = map toUpperCase_char s"

text \<open>
  The template literal renders the number \<open>idx + 1\<close>, a positive integer below
  \<open>2^32\<close>, in decimal without sign or exponent.
\<close>

definition digit_char :: "nat \<Rightarrow> char" where
  "digit_char d = char_of (48 + d)"

fun string_of_nat :: "nat \<Rightarrow> string" where
  "string_of_nat n =
     (if n < 10 then [digit_char n] else string_of_nat (n div 10) @ [digit_char (n mod 10)])"

declare string_of_nat.simps [simp del]

text \<open>Reading a decimal numeral back, used to show that the rendering is injective.\<close>

definition digit_value :: "char \<Rightarrow> nat" where
  "digit_value c = of_char c - 48"

definition nat_of_string :: "string \<Rightarrow> nat" where
  "nat_of_string s = foldl (\<lambda>acc c. 10 * acc + digit_value c) 0 s"

subsection \<open>Data\<close>

text \<open>
  An element \<open>i\<close> of the arrays returned by \<open>getAllFileContent\<close>: the handler reads
  \<open>i.alias\<close> (the field \<open>championAlias\<close> here), \<open>i.position\<close> (may be missing) and
  \<open>i.itemBuilds\<close>. The item build blocks \<open>k\<close> are copied as they are, so their type
  is a parameter.
\<close>

record 'k raw_build_file =
  championAlias :: string
  position :: "string option"
  itemBuilds :: "'k list"

text \<open>
  The object \<open>file\<close> of line 382: the fields of \<open>k\<close>, then \<open>champion\<close>, \<open>position\<close>
  and \<open>fileName\<close>.
\<close>

record 'k build_file =
  item_build :: 'k
  file_champion :: string
  file_position :: "string option"
  fileName :: string

text \<open>
  \<open>saveToFile\<close> (in \<open>utils/file\<close>) resolves to a value that the handler tests with
  \<open>instanceof Error\<close>.
\<close>

datatype write_result = Written | Failed

text \<open>
  The argument of \<open>updateStatusForMainWindowWebView\<close>: \<open>source\<close> and \<open>msg\<close> always,
  \<open>champion\<close> and \<open>position\<close> in the per-build message, \<open>finished: true\<close> in the last
  message of the \<open>try\<close> block, \<open>error: true\<close> and the exception \<open>e\<close> in the message of
  the \<open>catch\<close> block. A missing flag is \<open>False\<close>. The function wraps the data with a
  fresh \<open>nanoid()\<close> and sends it to the main window if there is one; the progress
  messages of a run are the calls of this function.
\<close>

record progress =
  source :: string
  msg :: string
  msg_champion :: "string option"
  msg_position :: "string option"
  finished :: bool
  error :: bool
  e :: "exn option"

text \<open>
  What the handler calls outside \<open>main.ts\<close>, as parameters. The registry is read with
  \<open>got\<close>; the file system is a state \<open>'fs\<close> that \<open>fse.ensureDir\<close>, the \<open>tar.x\<close>
  stream, \<open>updateDirStats\<close>, \<open>getAllFileContent\<close> and \<open>saveToFile\<close> read or change.
  A call that is awaited returns its exception as \<open>Inl\<close>. \<open>tar_x\<close> gives the outcome
  of the extraction stream and the file system it leaves. \<open>completion\<close> gives, for
  the index of each write task, the moment at which its write takes effect.
\<close>

record ('k, 'fs) environment =
  lolDir :: string
  got_json :: "string \<Rightarrow> exn + string"
  got_buffer :: "string \<Rightarrow> exn + string"
  ensureDir :: "string \<Rightarrow> 'fs \<Rightarrow> exn + 'fs"
  tar_x :: "string \<Rightarrow> string \<Rightarrow> 'fs \<Rightarrow> exn option \<times> 'fs"
  updateDirStats :: "string \<Rightarrow> 'fs \<Rightarrow> exn + 'fs"
  getAllFileContent :: "string \<Rightarrow> 'fs \<Rightarrow> exn + 'k raw_build_file list list"
  saveToFile :: "string \<Rightarrow> 'k build_file \<Rightarrow> 'fs \<Rightarrow> write_result \<times> 'fs"
  completion :: "nat \<Rightarrow> nat"

text \<open>
  What a run leaves: the progress messages in order, the write tasks with their results and
  the file system.
\<close>

record ('k, 'fs) run_result =
  messages :: "progress list"
  writes :: "('k build_file \<times> write_result) list"
  filesystem :: "'fs"

subsection \<open>File names and write tasks\<close>

text \<open>A string is truthy when it is present and not empty.\<close>

definition truthy :: "string option \<Rightarrow> bool" where
  "truthy p = (case p of None \<Rightarrow> False | Some t \<Rightarrow> t \<noteq> [])"

text \<open>Line 379: \<open>const pStr = position ? `${position} - ` : ``\<close>.\<close>

definition pStr :: "string option \<Rightarrow> string" where
  "pStr p = (case p of None \<Rightarrow> [] | Some t \<Rightarrow> if t = [] then [] else t @ '' - '')"

text \<open>Line 386: \<open>`[${source.toUpperCase()}] ${pStr}${champion}-${idx + 1}`\<close>.\<close>

definition make_fileName :: "string \<Rightarrow> string option \<Rightarrow> string \<Rightarrow> nat \<Rightarrow> string" where
  "make_fileName src p champion idx =
     ''['' @ toUpperCase src @ ''] '' @ pStr p @ champion @ ''-'' @ string_of_nat (idx + 1)"

text \<open>Lines 381 to 387, for the element \<open>k\<close> at index \<open>idx\<close> of \<open>i.itemBuilds\<close>.\<close>

definition make_file :: "string \<Rightarrow> 'k raw_build_file \<Rightarrow> nat \<times> 'k \<Rightarrow> 'k build_file" where
  "make_file src i ik =
     \<lparr>item_build = snd ik, file_champion = championAlias i, file_position = position i,
      fileName = make_fileName src (position i) (championAlias i) (fst ik)\<rparr>"

text \<open>The inner loop \<open>itemBuilds.forEach((k, idx) => ...)\<close>, lines 380 to 404.\<close>

definition files_of :: "string \<Rightarrow> 'k raw_build_file \<Rightarrow> 'k build_file list" where
  "files_of src i = map (make_file src i) (enumerate 0 (itemBuilds i))"

text \<open>The two outer loops, lines 376 to 406: one task per file, in this order.\<close>

definition build_files :: "string \<Rightarrow> 'k raw_build_file list list \<Rightarrow> 'k build_file list" where
  "build_files src files = concat (map (\<lambda>arr. concat (map (files_of src) arr)) files)"

text \<open>
  The tasks: each calls \<open>saveToFile(lolDir, file, true, 0)\<close>. The calls are started
  in the order of the loop and run concurrently until \<open>Promise.all\<close> joins them, so
  the writes take effect in the order in which they complete, which the program does not
  fix. \<open>time i\<close> is the moment at which the write of the task with index \<open>i\<close> takes
  effect; the tasks in the order of these moments (the order of the loop among equal
  moments):
\<close>

definition completion_order :: "(nat \<Rightarrow> nat) \<Rightarrow> 'a list \<Rightarrow> (nat \<times> 'a) list" where
  "completion_order time fl = sort_key (\<lambda>t. time (fst t)) (enumerate 0 fl)"

text \<open>The writes in a given order: the result of each task by index, and the file system.\<close>

fun exec_writes :: "('k build_file \<Rightarrow> 'fs \<Rightarrow> write_result \<times> 'fs) \<Rightarrow> (nat \<times> 'k build_file) list \<Rightarrow> 'fs
    \<Rightarrow> (nat \<times> write_result) list \<times> 'fs" where
  "exec_writes save [] fs = ([], fs)"
| "exec_writes save (t # ts) fs =
     (let (r, fs1) = save (snd t) fs; (rs, fs2) = exec_writes save ts fs1
      in ((fst t, r) # rs, fs2))"

text \<open>
  The result of the task with index \<open>i\<close>. Every task has one (lemma
  \<open>every_task_settles\<close> below), so the second case never applies.
\<close>

definition result_of :: "(nat \<times> write_result) list \<Rightarrow> nat \<Rightarrow> write_result" where
  "result_of settled i = (case map_of settled i of Some r \<Rightarrow> r | None \<Rightarrow> Failed)"

text \<open>
  \<open>Promise.all(tasks)\<close>: the writes take effect in their order of completion, and the
  results are those of the tasks in the order of the loop.
\<close>

definition run_tasks :: "('k build_file \<Rightarrow> 'fs \<Rightarrow> write_result \<times> 'fs) \<Rightarrow> (nat \<Rightarrow> nat)
    \<Rightarrow> 'k build_file list \<Rightarrow> 'fs \<Rightarrow> ('k build_file \<times> write_result) list \<times> 'fs" where
  "run_tasks save time fl fs =
     (let (settled, fs1) = exec_writes save (completion_order time fl) fs
      in (map (\<lambda>t. (snd t, result_of settled (fst t))) (enumerate 0 fl), fs1))"

subsection \<open>Progress messages\<close>

definition status :: "string \<Rightarrow> string \<Rightarrow> progress" where
  "status src m =
     \<lparr>source = src, msg = m, msg_champion = None, msg_position = None,
      finished = False, error = False, e = None\<rparr>"

text \<open>Lines 396 to 401.\<close>

definition applied_msg :: "string \<Rightarrow> 'k build_file \<Rightarrow> progress" where
  "applied_msg src f =
     (status src (''['' @ src @ ''] Applied builds for '' @
        (if truthy (file_position f)
         then file_champion f @ ''@'' @ the (file_position f) else file_champion f)))
     \<lparr>msg_champion := Some (file_champion f), msg_position := file_position f\<rparr>"

text \<open>
  The \<open>then\<close> callback of a task, lines 389 to 402: a result that is an \<open>Error\<close> is
  logged to the console only, any other result sends the per-build message.
\<close>

definition task_msgs :: "string \<Rightarrow> 'k build_file \<times> write_result \<Rightarrow> progress list" where
  "task_msgs src fr = (case snd fr of Failed \<Rightarrow> [] | Written \<Rightarrow> [applied_msg src (fst fr)])"

text \<open>Lines 408 to 412 and 415 to 420.\<close>

definition finished_msg :: "string \<Rightarrow> progress" where
  "finished_msg src = (status src (''['' @ src @ ''] Finished.''))\<lparr>finished := True\<rparr>"

definition error_msg :: "string \<Rightarrow> exn \<Rightarrow> progress" where
  "error_msg src x =
     (status src (''['' @ src @ ''] Something went wrong''))\<lparr>error := True, e := Some x\<rparr>"

subsection \<open>The handler\<close>

text \<open>
  Lines 333 to 374, up to the scan of the working directory: the messages sent so far
  and either the exception that left the \<open>try\<close> block or the scanned files. The stream
  \<open>s.pipe(tar.x({strip: 1, cwd}))\<close> is started and neither awaited nor listened to, so
  its outcome is dropped and only the file system it leaves is passed on; the scan
  follows \<open>sleep(3000)\<close>.
\<close>

definition fetch_extract_scan :: "('k, 'fs) environment \<Rightarrow> string \<Rightarrow> 'fs
    \<Rightarrow> progress list \<times> 'fs \<times> (exn + 'k raw_build_file list list)" where
  "fetch_extract_scan env src fs =
     (let url = ''https://registry.npmjs.com/@champ-r/'' @ src @ ''/latest'';
          cwd = ''.npm/'' @ src @ ''/''
      in case got_json env url of
        Inl x \<Rightarrow> ([], fs, Inl x)
      | Inr tarball \<Rightarrow>
          (let m1 = [status src (''Fetched metadata for '' @ src),
                     status src (''Downloading tarball for '' @ src)]
           in case got_buffer env tarball of
             Inl x \<Rightarrow> (m1, fs, Inl x)
           | Inr body \<Rightarrow>
               (let m2 = m1 @ [status src (''Downloaded tarball for '' @ src)]
                in case ensureDir env cwd fs of
                  Inl x \<Rightarrow> (m2, fs, Inl x)
                | Inr fs1 \<Rightarrow>
                    (let fs2 = snd (tar_x env body cwd fs1);
                         m3 = m2 @ [status src (''Extracted data for '' @ src)]
                     in case updateDirStats env cwd fs2 of
                       Inl x \<Rightarrow> (m3, fs2, Inl x)
                     | Inr fs3 \<Rightarrow> (m3, fs3, getAllFileContent env cwd fs3)))))"

text \<open>
  The whole handler, lines 332 to 422: the tasks are built and joined with
  \<open>Promise.all\<close>, then the finished message is sent; an exception sends the error
  message instead. In the program the per-build messages arrive as the writes complete,
  all of them before \<open>Promise.all\<close> resolves; here they are listed in the order of
  the tasks.
\<close>

definition PrepareSourceData :: "('k, 'fs) environment \<Rightarrow> string \<Rightarrow> 'fs \<Rightarrow> ('k, 'fs) run_result" where
  "PrepareSourceData env src fs =
     (case fetch_extract_scan env src fs of
        (ms, fs1, Inl x) \<Rightarrow>
          \<lparr>messages = ms @ [error_msg src x], writes = [], filesystem = fs1\<rparr>
      | (ms, fs1, Inr files) \<Rightarrow>
          (let (rs, fs2) = run_tasks (saveToFile env (lolDir env)) (completion env)
                             (build_files src files) fs1
           in \<lparr>messages = ms @ concat (map (task_msgs src) rs) @ [finished_msg src],
               writes = rs, filesystem = fs2\<rparr>))"

text \<open>A message that ends a run.\<close>

definition terminal :: "progress \<Rightarrow> bool" where
  "terminal m = (finished m \<or> error m)"

text \<open>
  The documented pattern of a file name, \<open>[SOURCE] position - champion-index\<close>: the
  upper-cased source name in square brackets, a space, the position followed by
  \<open>" - "\<close> when there is a position, the champion alias, a hyphen and the index, counted
  from 1. There is a position when the field is present and not the empty string.
\<close>

definition documented_name :: "string \<Rightarrow> string option \<Rightarrow> string \<Rightarrow> nat \<Rightarrow> string" where
  "documented_name src p champion n =
     ''['' @ toUpperCase src @ '']'' @ '' '' @
     (if truthy p then the p @ '' - '' else []) @ champion @ ''-'' @ string_of_nat n"

subsection \<open>The build writer\<close>

text \<open>
  Modelled from the spec: \<open>saveToFile\<close> of \<open>utils/file\<close>, the build writer, is not
  among the sources. The spec has it write each build as one file into the game's
  Champions directory (one of two directories, chosen from the game data, here
  \<open>champions_dir lolDir\<close>), under the derived file name, a later write of the same name
  replacing the earlier file; a write that fails gives \<open>Failed\<close> and leaves the
  directory as it was. Which paths fail is the parameter \<open>fails\<close>. The file system is
  the map from paths to the contents written.
\<close>

definition saveToFile_spec :: "(string \<Rightarrow> bool) \<Rightarrow> (string \<Rightarrow> string) \<Rightarrow> string \<Rightarrow> 'k build_file
    \<Rightarrow> (string \<rightharpoonup> 'k build_file) \<Rightarrow> write_result \<times> (string \<rightharpoonup> 'k build_file)" where
  "saveToFile_spec fails champions_dir dir file fs =
     (let path = champions_dir dir @ ''/'' @ fileName file
      in if fails path then (Failed, fs) else (Written, fs(path \<mapsto> file)))"

text \<open>The paths and contents that a list of tasks writes with this writer, in order.\<close>

definition written_files :: "(string \<Rightarrow> bool) \<Rightarrow> (string \<Rightarrow> string) \<Rightarrow> string \<Rightarrow> 'k build_file list
    \<Rightarrow> (string \<times> 'k build_file) list" where
  "written_files fails champions_dir dir fl =
     map (\<lambda>f. (champions_dir dir @ ''/'' @ fileName f, f))
       (filter (\<lambda>f. \<not> fails (champions_dir dir @ ''/'' @ fileName f)) fl)"

subsection \<open>Sample runs\<close>

text \<open>
  An environment in which the registry answers and every awaited call succeeds. Its file
  system is the content of the working directory as the scan reads it: a successful
  extraction replaces it by the content of the archive, a failed one leaves what was
  there. Every write gives the result \<open>r\<close>, and the writes complete in the order of
  the tasks.
\<close>

definition sample_env :: "exn option \<Rightarrow> nat raw_build_file list list \<Rightarrow> write_result
    \<Rightarrow> (nat, nat raw_build_file list list) environment" where
  "sample_env extraction archive r =
     \<lparr>lolDir = ''C:/Riot Games/League of Legends'',
      got_json = (\<lambda>url. Inr ''https://registry.npmjs.com/pkg.tgz''),
      got_buffer = (\<lambda>url. Inr ''bytes''),
      ensureDir = (\<lambda>dir fs. Inr fs),
      tar_x = (\<lambda>body cwd fs. case extraction of None \<Rightarrow> (None, archive) | Some x \<Rightarrow> (Some x, fs)),
      updateDirStats = (\<lambda>dir fs. Inr fs),
      getAllFileContent = (\<lambda>dir fs. Inr fs),
      saveToFile = (\<lambda>dir f fs. (r, fs)),
      completion = (\<lambda>i. i)\<rparr>"

definition ahri :: "nat raw_build_file" where
  "ahri = \<lparr>championAlias = ''Ahri'', position = None, itemBuilds = [0, 1]\<rparr>"


section \<open>The \<open>applyRunePage\<close> handler of \<open>app/main.ts\<close>\<close>

datatype apply_error = Busy | ApplyFailed

text \<open>The apply calls that have been accepted and have not settled, by job id.\<close>

record rune_applier =
  in_flight :: "string list"

text \<open>
  Modelled from the spec: \<open>LcuWatcher.applyRunePage\<close> of \<open>utils/lcu\<close>, the rune applier,
  is not among the sources. The spec has a call that arrives while another is pending
  rejected at once with \<open>Busy\<close> and not queued; any other call becomes the pending one
  until its requests to the client settle.
\<close>

definition applyRunePage_begin :: "string \<Rightarrow> rune_applier \<Rightarrow> apply_error option \<times> rune_applier" where
  "applyRunePage_begin job st =
     (if in_flight st = [] then (None, st\<lparr>in_flight := in_flight st @ [job]\<rparr>)
      else (Some Busy, st))"

definition applyRunePage_settle :: "string \<Rightarrow> rune_applier \<Rightarrow> rune_applier" where
  "applyRunePage_settle job st = st\<lparr>in_flight := removeAll job (in_flight st)\<rparr>"

text \<open>
  What the handler of lines 311 to 322 does for a job: the \<open>applyRunePage:done\<close> message
  to the popup, or the line on the console for a rejected call.
\<close>

datatype apply_output = Done string | ConsoleError string apply_error

text \<open>
  The \<open>finally\<close> block, lines 317 to 321, sends the done message in development mode.
\<close>

definition finally_block :: "bool \<Rightarrow> string \<Rightarrow> apply_output list" where
  "finally_block isDev job = (if isDev then [Done job] else [])"

text \<open>
  The handler up to its \<open>await\<close>: a call rejected at once goes through \<open>catch\<close> and
  \<open>finally\<close>, an accepted call waits.
\<close>

definition on_applyRunePage :: "bool \<Rightarrow> string \<Rightarrow> rune_applier \<Rightarrow> rune_applier \<times> apply_output list" where
  "on_applyRunePage isDev job st =
     (case applyRunePage_begin job st of
        (Some err, st1) \<Rightarrow> (st1, ConsoleError job err # finally_block isDev job)
      | (None, st1) \<Rightarrow> (st1, []))"

text \<open>
  The handler after its \<open>await\<close>, when the pending call of \<open>job\<close> settles with \<open>r\<close>:
  line 314 on success, the \<open>catch\<close> block otherwise, then \<open>finally\<close>.
\<close>

definition on_settled :: "bool \<Rightarrow> string \<Rightarrow> apply_error option \<Rightarrow> rune_applier
    \<Rightarrow> rune_applier \<times> apply_output list" where
  "on_settled isDev job r st =
     (if job \<in> set (in_flight st)
      then (applyRunePage_settle job st,
            (case r of None \<Rightarrow> [Done job] | Some err \<Rightarrow> [ConsoleError job err])
              @ finally_block isDev job)
      else (st, []))"

datatype apply_event = ApplyRunePage string | Settled string "apply_error option"

fun apply_step :: "bool \<Rightarrow> apply_event \<Rightarrow> rune_applier \<Rightarrow> rune_applier \<times> apply_output list" where
  "apply_step isDev (ApplyRunePage job) st = on_applyRunePage isDev job st"
| "apply_step isDev (Settled job r) st = on_settled isDev job r st"

fun apply_run :: "bool \<Rightarrow> apply_event list \<Rightarrow> rune_applier \<Rightarrow> rune_applier \<times> apply_output list" where
  "apply_run isDev [] st = (st, [])"
| "apply_run isDev (ev # evs) st =
     (let (st1, out1) = apply_step isDev ev st; (st2, out2) = apply_run isDev evs st1
      in (st2, out1 @ out2))"

definition idle :: rune_applier where
  "idle = \<lparr>in_flight = []\<rparr>"


section \<open>Properties of the popup handler\<close>















text \<open>
  C3, as the code has it. When the popup window exists, the \<open>MatchedStartedOrTerminated\<close>
  event sets the remembered champion to 0 whatever it was, and a following signal with a
  nonzero id is emitted, also when it is the id signaled last.
\<close>

theorem match_end_resets_memory:
  assumes "popupWindow s \<noteq> None"
  shows "lastChampion (onMatchedStartedOrTerminated s) = 0
    \<and> (c \<noteq> 0 \<longrightarrow>
         snd (onShowPopup \<lparr>championId = Some c, noCache = nc\<rparr> (onMatchedStartedOrTerminated s)) = [c])"
  using assms
  by (auto simp: onMatchedStartedOrTerminated_def onShowPopup_def Let_def split: option.splits)

text \<open>C3 after champion 103 has been signaled at start-up: 103 is emitted again.\<close>

theorem match_end_resets_memory_witness:
  "popupWindow (fst (run initial_state [champSelect 103])) \<noteq> None
   \<and> lastChampion (fst (run initial_state [champSelect 103])) = 103
   \<and> lastChampion (onMatchedStartedOrTerminated (fst (run initial_state [champSelect 103]))) = 0
   \<and> (103::int) \<noteq> 0
   \<and> snd (onShowPopup \<lparr>championId = Some 103, noCache = False\<rparr>
        (onMatchedStartedOrTerminated (fst (run initial_state [champSelect 103])))) = [103]"
  using match_end_resets_memory [of "fst (run initial_state [champSelect 103])" 103 False]
  by (simp add: initial_state_def champSelect_def onShowPopup_def
      onMatchedStartedOrTerminated_def)

text \<open>
  C3 as stated fails when the popup window has been closed: the listener changes nothing
  then. After champion 103 has been signaled and the popup closed, the event leaves 103
  remembered, and the next signal of 103 emits nothing.
\<close>

theorem match_end_without_popup_keeps_memory:
  "lastChampion (fst (run initial_state
       [champSelect 103, PopupClosed, MatchedStartedOrTerminated])) = 103
   \<and> snd (step (champSelect 103) (fst (run initial_state
       [champSelect 103, PopupClosed, MatchedStartedOrTerminated]))) = []"
  by (simp add: initial_state_def champSelect_def onShowPopup_def
      onPopupClosed_def onMatchedStartedOrTerminated_def)




section \<open>Properties of the \<open>PrepareSourceData\<close> handler\<close>

subsection \<open>File names\<close>

lemma make_fileName_documented:
  "make_fileName src p c idx = documented_name src p c (Suc idx)"
  by (auto simp: make_fileName_def documented_name_def pStr_def truthy_def split: option.splits)

lemma fileName_make_file:
  "fileName (make_file src i ik)
     = documented_name src (position i) (championAlias i) (Suc (fst ik))"
  by (simp add: make_file_def make_fileName_documented)

lemma map_enumerate_Suc:
  "map (\<lambda>ik. f (Suc (fst ik))) (enumerate n xs) = map f [Suc n..<Suc n + length xs]"
proof (induction xs arbitrary: n)
  case Nil
  show ?case by simp
next
  case (Cons x xs)
  have "[Suc n..<Suc n + length (x # xs)] = Suc n # [Suc (Suc n)..<Suc n + length (x # xs)]"
    by (rule upt_conv_Cons) simp
  moreover have "Suc n + length (x # xs) = Suc (Suc n) + length xs"
    by simp
  ultimately have "[Suc n..<Suc n + length (x # xs)]
      = Suc n # [Suc (Suc n)..<Suc (Suc n) + length xs]"
    by (simp only:)
  then show ?case using Cons.IH [of "Suc n"] by (simp del: upt_Suc)
qed

lemma map_fst_enumerate_0:
  "map (\<lambda>ik. f (Suc (fst ik))) (enumerate 0 xs) = map f [1..<Suc (length xs)]"
  using map_enumerate_Suc [of f 0 xs] by simp

lemma names_files_of:
  "map fileName (files_of src i) =
     map (documented_name src (position i) (championAlias i)) [1..<Suc (length (itemBuilds i))]"
  unfolding files_of_def map_map comp_def fileName_make_file
  by (rule map_fst_enumerate_0)

lemma length_files_of: "length (files_of src i) = length (itemBuilds i)"
  by (simp add: files_of_def)

lemma length_build_files:
  "length (build_files src files)
     = sum_list (map (\<lambda>arr. sum_list (map (\<lambda>i. length (itemBuilds i)) arr)) files)"
  by (simp add: build_files_def length_concat comp_def length_files_of)

lemma names_build_files:
  "map fileName (build_files src files) =
     concat (map (\<lambda>arr. concat (map (\<lambda>i.
       map (documented_name src (position i) (championAlias i))
         [1..<Suc (length (itemBuilds i))]) arr)) files)"
  by (simp add: build_files_def map_concat comp_def names_files_of)

text \<open>
  C5. The file names of the item builds of one champion and position are, in the order of
  \<open>itemBuilds\<close>, the documented names with the indices 1 to the number of item builds:
  the upper-cased source name in square brackets and a space; the position and \<open>" - "\<close>
  when there is a position (present and not empty), nothing otherwise; the champion
  alias, a hyphen and the index in decimal. Source \<open>op\<close>, champion \<open>Ahri\<close>, no position
  and two item builds give \<open>[OP] Ahri-1\<close> and \<open>[OP] Ahri-2\<close>.
\<close>

theorem fileName_composition:
  "map fileName (files_of src (i :: 'k raw_build_file)) =
     map (documented_name src (position i) (championAlias i)) [1..<Suc (length (itemBuilds i))]
   \<and> documented_name src None c n = ''['' @ toUpperCase src @ ''] '' @ c @ ''-'' @ string_of_nat n
   \<and> (t \<noteq> [] \<longrightarrow> documented_name src (Some t) c n
         = ''['' @ toUpperCase src @ ''] '' @ t @ '' - '' @ c @ ''-'' @ string_of_nat n)
   \<and> map fileName (build_files ''op''
         [[\<lparr>championAlias = ''Ahri'', position = None, itemBuilds = [k1, k2 :: 'k]\<rparr>]])
       = [''[OP] Ahri-1'', ''[OP] Ahri-2'']"
proof (intro conjI impI)
  show "map fileName (files_of src i) =
     map (documented_name src (position i) (championAlias i)) [1..<Suc (length (itemBuilds i))]"
    by (rule names_files_of)
next
  show "documented_name src None c n = ''['' @ toUpperCase src @ ''] '' @ c @ ''-'' @ string_of_nat n"
    by (simp add: documented_name_def truthy_def)
next
  assume "t \<noteq> []"
  then show "documented_name src (Some t) c n
         = ''['' @ toUpperCase src @ ''] '' @ t @ '' - '' @ c @ ''-'' @ string_of_nat n"
    by (simp add: documented_name_def truthy_def)
next
  have up: "toUpperCase ''op'' = ''OP''" by code_simp
  have one: "string_of_nat (Suc 0) = ''1''" by code_simp
  have two: "string_of_nat (Suc (Suc 0)) = ''2''" by code_simp
  have "[1..<Suc (Suc (Suc 0))] = [1, 2]" by (simp add: upt_rec)
  then show "map fileName (build_files ''op''
         [[\<lparr>championAlias = ''Ahri'', position = None, itemBuilds = [k1, k2]\<rparr>]])
       = [''[OP] Ahri-1'', ''[OP] Ahri-2'']"
    by (simp add: names_build_files documented_name_def truthy_def up one two)
qed

text \<open>C5 for source \<open>op\<close>, position \<open>top\<close> and champion \<open>Ahri\<close>.\<close>

theorem fileName_composition_witness:
  "''top'' \<noteq> []
   \<and> documented_name ''op'' (Some ''top'') ''Ahri'' 1 = ''[OP] top - Ahri-1''
   \<and> map fileName (files_of ''op''
        \<lparr>championAlias = ''Ahri'', position = Some ''top'', itemBuilds = [0::nat]\<rparr>)
       = [''[OP] top - Ahri-1'']"
proof -
  have up: "toUpperCase ''op'' = ''OP''" by code_simp
  have one: "string_of_nat (Suc 0) = ''1''" by code_simp
  show ?thesis
    using fileName_composition [of "''op''"
        "\<lparr>championAlias = ''Ahri'', position = Some ''top'', itemBuilds = [0::nat]\<rparr>"
        "''Ahri''" 1 "''top''" 0 1]
    by (simp add: up one)
qed

subsection \<open>Write tasks\<close>

lemma map_fst_run_tasks: "map fst (fst (run_tasks save time fl fs)) = fl"
  by (simp add: run_tasks_def split_beta comp_def)

lemma distinct_fst_enumerate: "distinct (map fst (enumerate n xs))"
  by simp

lemma distinct_fst_completion_order: "distinct (map fst (completion_order time fl))"
proof -
  have "distinct (enumerate 0 fl)"
    using distinct_fst_enumerate [of 0 fl] by (rule distinct_map [THEN iffD1, THEN conjunct1])
  moreover have "inj_on fst (set (enumerate 0 fl))"
    using distinct_fst_enumerate [of 0 fl] by (rule distinct_map [THEN iffD1, THEN conjunct2])
  ultimately show ?thesis
    by (simp add: completion_order_def distinct_map)
qed

lemma set_completion_order: "set (completion_order time fl) = set (enumerate 0 fl)"
  by (simp add: completion_order_def)

text \<open>Looking a task up by its index, in the order of completion or of the loop.\<close>

lemma map_of_completion_order:
  "map_of (completion_order time fl) = map_of (enumerate 0 fl)"
  using distinct_fst_completion_order [of time fl] distinct_fst_enumerate [of 0 fl]
    set_completion_order [of time fl]
  by (simp add: map_of_inject_set)

lemma map_fst_exec_writes: "map fst (fst (exec_writes save ts fs)) = map fst ts"
  by (induction ts arbitrary: fs) (simp_all add: split_beta)

lemma every_task_settles:
  assumes "i < length fl"
  shows "map_of (fst (exec_writes save (completion_order time fl) fs)) i \<noteq> None"
proof -
  have "i \<in> set (map fst (enumerate 0 fl))" using assms by simp
  then have "i \<in> fst ` set (completion_order time fl)"
    by (simp only: set_completion_order set_map)
  then have "i \<in> set (map fst (fst (exec_writes save (completion_order time fl) fs)))"
    by (simp only: map_fst_exec_writes set_map)
  then show ?thesis
    by (simp only: map_of_eq_None_iff set_map not_not)
qed

text \<open>
  When the result of a write depends on the file only, the results of the tasks do not
  depend on the order of completion.
\<close>

lemma exec_writes_results:
  assumes "\<And>f fs. fst (save f fs) = res f"
  shows "fst (exec_writes save ts fs) = map (\<lambda>(i, f). (i, res f)) ts"
  by (induction ts arbitrary: fs) (simp_all add: split_beta assms)

lemma run_tasks_results:
  assumes "\<And>f fs. fst (save f fs) = res f"
  shows "fst (run_tasks save time fl fs) = map (\<lambda>f. (f, res f)) fl"
proof -
  let ?settled = "fst (exec_writes save (completion_order time fl) fs)"
  have look: "map_of ?settled = map_option res \<circ> map_of (enumerate 0 fl)"
    by (simp only: exec_writes_results [of save res, OF assms] map_of_map
        map_of_completion_order)
  have "result_of ?settled (fst t) = res (snd t)" if "t \<in> set (enumerate 0 fl)" for t
  proof -
    have "(fst t, snd t) \<in> set (enumerate 0 fl)" using that by simp
    then have m: "map_of (enumerate 0 fl) (fst t) = Some (snd t)"
      using distinct_fst_enumerate [of 0 fl] by (rule_tac map_of_is_SomeI)
    show ?thesis unfolding result_of_def look comp_def m by simp
  qed
  then have "map (\<lambda>t. (snd t, result_of ?settled (fst t))) (enumerate 0 fl)
      = map (\<lambda>t. (snd t, res (snd t))) (enumerate 0 fl)"
    by simp
  also have "\<dots> = map (\<lambda>f. (f, res f)) (map snd (enumerate 0 fl))"
    by (simp only: map_map comp_def)
  also have "\<dots> = map (\<lambda>f. (f, res f)) fl"
    by simp
  finally show ?thesis by (simp add: run_tasks_def split_beta)
qed

lemma exec_writes_unchanged:
  assumes "\<And>f fs. snd (save f fs) = fs"
  shows "snd (exec_writes save ts fs) = fs"
  by (induction ts arbitrary: fs) (simp_all add: split_beta assms)

text \<open>Writes that all give the result \<open>r\<close> and leave the file system as it is.\<close>

lemma run_tasks_const:
  "run_tasks (\<lambda>f fs. (r, fs)) time fl fs = (map (\<lambda>f. (f, r)) fl, fs)"
proof (rule prod_eqI)
  show "fst (run_tasks (\<lambda>f fs. (r, fs)) time fl fs) = fst (map (\<lambda>f. (f, r)) fl, fs)"
    using run_tasks_results [of "\<lambda>f fs. (r, fs)" "\<lambda>f. r" time fl fs] by simp
next
  show "snd (run_tasks (\<lambda>f fs. (r, fs)) time fl fs) = snd (map (\<lambda>f. (f, r)) fl, fs)"
    using exec_writes_unchanged [of "\<lambda>f fs. (r, fs)" "completion_order time fl" fs]
    by (simp add: run_tasks_def split_beta)
qed

subsection \<open>Runs\<close>

lemma run_reached:
  "fetch_extract_scan env src fs = (ms, fs1, Inr files) \<Longrightarrow>
   writes (PrepareSourceData env src fs)
     = fst (run_tasks (saveToFile env (lolDir env)) (completion env)
              (build_files src files) fs1)
   \<and> messages (PrepareSourceData env src fs)
     = ms @ concat (map (task_msgs src) (writes (PrepareSourceData env src fs)))
         @ [finished_msg src]"
  by (simp add: PrepareSourceData_def split: prod.splits)

lemma run_aborted:
  "fetch_extract_scan env src fs = (ms, fs1, Inl x) \<Longrightarrow>
   PrepareSourceData env src fs
     = \<lparr>messages = ms @ [error_msg src x], writes = [], filesystem = fs1\<rparr>"
  by (simp add: PrepareSourceData_def)

lemma status_not_terminal: "\<not> terminal (status src m)"
  by (simp add: terminal_def status_def)

lemma applied_not_terminal: "\<not> terminal (applied_msg src f)"
  by (simp add: terminal_def status_def applied_msg_def)

lemma task_msgs_not_terminal: "filter terminal (task_msgs src fr) = []"
  by (simp add: task_msgs_def applied_not_terminal split: write_result.splits)

lemma tasks_msgs_not_terminal: "filter terminal (concat (map (task_msgs src) rs)) = []"
  by (induction rs) (simp_all add: task_msgs_not_terminal)

lemma scan_msgs_not_terminal: "filter terminal (fst (fetch_extract_scan env src fs)) = []"
  by (simp add: fetch_extract_scan_def Let_def status_not_terminal split: sum.splits)

lemma finished_terminal:
  "terminal (finished_msg src) \<and> finished (finished_msg src) \<and> \<not> error (finished_msg src)"
  by (simp add: terminal_def finished_msg_def status_def)

lemma error_terminal:
  "terminal (error_msg src x) \<and> \<not> finished (error_msg src x) \<and> error (error_msg src x)"
  by (simp add: terminal_def error_msg_def status_def)

lemma task_msgs_written:
  "concat (map (task_msgs src) rs)
     = map (applied_msg src \<circ> fst) (filter (\<lambda>fr. snd fr = Written) rs)"
  by (induction rs) (simp_all add: task_msgs_def split: write_result.splits)

text \<open>
  A run whose awaited calls up to the scan all return: every task is run and the run
  ends with the finished message.
\<close>

lemma run_finished:
  assumes "snd (snd (fetch_extract_scan env src fs)) = Inr files"
  shows "map fst (writes (PrepareSourceData env src fs)) = build_files src files"
    and "messages (PrepareSourceData env src fs)
      = fst (fetch_extract_scan env src fs)
        @ concat (map (task_msgs src) (writes (PrepareSourceData env src fs)))
        @ [finished_msg src]"
proof -
  obtain ms fs1 where scan: "fetch_extract_scan env src fs = (ms, fs1, Inr files)"
    and ms: "ms = fst (fetch_extract_scan env src fs)"
    using assms by (cases "fetch_extract_scan env src fs") auto
  show "map fst (writes (PrepareSourceData env src fs)) = build_files src files"
    using run_reached [OF scan] by (simp add: map_fst_run_tasks)
  show "messages (PrepareSourceData env src fs)
      = fst (fetch_extract_scan env src fs)
        @ concat (map (task_msgs src) (writes (PrepareSourceData env src fs)))
        @ [finished_msg src]"
    using run_reached [OF scan] ms by simp
qed

text \<open>
  A run in which an awaited call up to the scan throws: one error message, the last of
  the run, and no task.
\<close>

lemma awaited_failure_aborts:
  assumes "snd (snd (fetch_extract_scan env src fs)) = Inl x"
  shows "writes (PrepareSourceData env src fs) = []
    \<and> filter terminal (messages (PrepareSourceData env src fs)) = [error_msg src x]
    \<and> last (messages (PrepareSourceData env src fs)) = error_msg src x"
proof -
  obtain ms fs1 where scan: "fetch_extract_scan env src fs = (ms, fs1, Inl x)"
    and ms: "ms = fst (fetch_extract_scan env src fs)"
    using assms by (cases "fetch_extract_scan env src fs") auto
  have "filter terminal ms = []"
    using scan_msgs_not_terminal [of env src fs] ms by simp
  then show ?thesis
    using run_aborted [OF scan] error_terminal [of src x] by simp
qed

text \<open>A registry lookup that fails (a 404, say) aborts before any other message.\<close>

lemma metadata_failure_aborts:
  assumes "got_json env (''https://registry.npmjs.com/@champ-r/'' @ src @ ''/latest'') = Inl x"
  shows "PrepareSourceData env src fs
    = \<lparr>messages = [error_msg src x], writes = [], filesystem = fs\<rparr>"
  using assms by (simp add: PrepareSourceData_def fetch_extract_scan_def)

text \<open>The outcome of the extraction stream has no effect on the run.\<close>

lemma scan_extraction_outcome:
  "fetch_extract_scan (env\<lparr>tar_x := \<lambda>body cwd fs. (outcome, snd (tar_x env body cwd fs))\<rparr>) src fs
     = fetch_extract_scan env src fs"
  by (simp add: fetch_extract_scan_def Let_def split: sum.splits)

lemma extraction_outcome_unobserved:
  "PrepareSourceData (env\<lparr>tar_x := \<lambda>body cwd fs. (outcome, snd (tar_x env body cwd fs))\<rparr>) src fs
     = PrepareSourceData env src fs"
  by (simp add: PrepareSourceData_def scan_extraction_outcome)

text \<open>
  C6. In a run that reaches the scan, the write results are, file by file in the order of
  the scan, one per item build of the file: a raw build file with N item builds gives N
  results, for the documented names with the indices 1 to N. So the number of results is
  the sum of the numbers of item builds, and N for a run over the one file.
\<close>

theorem one_write_per_item_build:
  assumes "snd (snd (fetch_extract_scan env src fs)) = Inr files"
  shows "map (fileName \<circ> fst) (writes (PrepareSourceData env src fs)) =
      concat (map (\<lambda>arr. concat (map (\<lambda>i.
        map (documented_name src (position i) (championAlias i))
          [1..<Suc (length (itemBuilds i))]) arr)) files)
    \<and> length (writes (PrepareSourceData env src fs))
        = sum_list (map (\<lambda>arr. sum_list (map (\<lambda>i. length (itemBuilds i)) arr)) files)
    \<and> (files = [[i]] \<longrightarrow> length (writes (PrepareSourceData env src fs)) = length (itemBuilds i))"
proof -
  have fl: "map fst (writes (PrepareSourceData env src fs)) = build_files src files"
    using assms by (rule run_finished(1))
  have "map (fileName \<circ> fst) (writes (PrepareSourceData env src fs))
      = map fileName (map fst (writes (PrepareSourceData env src fs)))"
    by simp
  then have names: "map (fileName \<circ> fst) (writes (PrepareSourceData env src fs))
      = map fileName (build_files src files)"
    using fl by (simp only:)
  have "length (writes (PrepareSourceData env src fs))
      = length (map fst (writes (PrepareSourceData env src fs)))"
    by simp
  then have len: "length (writes (PrepareSourceData env src fs)) = length (build_files src files)"
    using fl by (simp only:)
  show ?thesis
    using names len by (auto simp: names_build_files length_build_files)
qed

text \<open>C6 for the source \<open>op\<close> with the one file of Ahri, two item builds.\<close>

theorem one_write_per_item_build_witness:
  "snd (snd (fetch_extract_scan (sample_env None [[ahri]] Written) ''op'' [])) = Inr [[ahri]]
   \<and> [[ahri]] = [[ahri]]
   \<and> length (writes (PrepareSourceData (sample_env None [[ahri]] Written) ''op'' []))
       = length (itemBuilds ahri)
   \<and> length (itemBuilds ahri) = 2"
proof -
  have h: "snd (snd (fetch_extract_scan (sample_env None [[ahri]] Written) ''op'' [])) = Inr [[ahri]]"
    by (simp add: fetch_extract_scan_def sample_env_def Let_def)
  show ?thesis
    using h one_write_per_item_build [OF h, of ahri] by (simp add: ahri_def)
qed

text \<open>
  C8. Every run sends at least one message; its last message is terminal, finished or
  error and not both; and no other message of the run is terminal.
\<close>

theorem one_terminal_message:
  "messages (PrepareSourceData env src fs) \<noteq> []
   \<and> terminal (last (messages (PrepareSourceData env src fs)))
   \<and> filter terminal (messages (PrepareSourceData env src fs))
       = [last (messages (PrepareSourceData env src fs))]
   \<and> finished (last (messages (PrepareSourceData env src fs)))
       \<noteq> error (last (messages (PrepareSourceData env src fs)))"
proof -
  obtain ms fs1 res where scan: "fetch_extract_scan env src fs = (ms, fs1, res)"
    by (cases "fetch_extract_scan env src fs") auto
  have ms: "filter terminal ms = []"
    using scan_msgs_not_terminal [of env src fs] scan by simp
  show ?thesis
  proof (cases res)
    case (Inl x)
    then show ?thesis
      using run_aborted [of env src fs ms fs1 x] scan ms error_terminal [of src x] by simp
  next
    case (Inr files)
    then show ?thesis
      using run_reached [of env src fs ms fs1 files] scan ms finished_terminal [of src]
        tasks_msgs_not_terminal [of src "writes (PrepareSourceData env src fs)"]
      by simp
  qed
qed

text \<open>
  C2, as the code has it. A run that reaches the scan ends with the finished message,
  which has \<open>finished\<close> set and no error flag and is the same whatever the write results
  are, also when every write failed. No write failure aborts the run: every task is run,
  and a failed write only leaves out the message of its build.
\<close>

theorem finished_after_writes:
  assumes "snd (snd (fetch_extract_scan env src fs)) = Inr files"
  shows "last (messages (PrepareSourceData env src fs)) = finished_msg src
    \<and> filter terminal (messages (PrepareSourceData env src fs)) = [finished_msg src]
    \<and> finished (finished_msg src) \<and> \<not> error (finished_msg src)
    \<and> map fst (writes (PrepareSourceData env src fs)) = build_files src files
    \<and> messages (PrepareSourceData env src fs)
        = fst (fetch_extract_scan env src fs)
          @ map (applied_msg src \<circ> fst)
              (filter (\<lambda>fr. snd fr = Written) (writes (PrepareSourceData env src fs)))
          @ [finished_msg src]"
proof -
  have m: "messages (PrepareSourceData env src fs)
      = fst (fetch_extract_scan env src fs)
        @ concat (map (task_msgs src) (writes (PrepareSourceData env src fs)))
        @ [finished_msg src]"
    using assms by (rule run_finished(2))
  have "filter terminal (messages (PrepareSourceData env src fs)) = [finished_msg src]"
    using scan_msgs_not_terminal [of env src fs]
      tasks_msgs_not_terminal [of src "writes (PrepareSourceData env src fs)"]
      finished_terminal [of src]
    by (subst m) simp
  moreover have "last (messages (PrepareSourceData env src fs)) = finished_msg src"
    by (subst m) simp
  moreover have "map fst (writes (PrepareSourceData env src fs)) = build_files src files"
    using assms by (rule run_finished(1))
  ultimately show ?thesis
    using m finished_terminal [of src] by (simp add: task_msgs_written)
qed

text \<open>C2 for the source \<open>op\<close> with the file of Ahri when both writes fail.\<close>

theorem finished_after_writes_witness:
  "snd (snd (fetch_extract_scan (sample_env None [[ahri]] Failed) ''op'' [])) = Inr [[ahri]]
   \<and> last (messages (PrepareSourceData (sample_env None [[ahri]] Failed) ''op'' []))
       = finished_msg ''op''
   \<and> map snd (writes (PrepareSourceData (sample_env None [[ahri]] Failed) ''op'' []))
       = [Failed, Failed]"
proof -
  have h: "snd (snd (fetch_extract_scan (sample_env None [[ahri]] Failed) ''op'' [])) = Inr [[ahri]]"
    by (simp add: fetch_extract_scan_def sample_env_def Let_def)
  have w: "map snd (writes (PrepareSourceData (sample_env None [[ahri]] Failed) ''op'' []))
      = [Failed, Failed]"
    by (simp add: PrepareSourceData_def fetch_extract_scan_def sample_env_def Let_def run_tasks_const build_files_def
        files_of_def ahri_def enumerate_eq_zip upt_rec)
  show ?thesis
    using h w finished_after_writes [OF h] by simp
qed

text \<open>
  C2 as stated fails: the last message tells nothing about the write results. For the
  source \<open>op\<close> with the file of Ahri, the run in which both writes fail and the run in
  which both are written end with the same message, with \<open>finished\<close> set and no error
  flag.
\<close>

theorem finished_ignores_write_results:
  "map snd (writes (PrepareSourceData (sample_env None [[ahri]] Failed) ''op'' []))
     = [Failed, Failed]
   \<and> map snd (writes (PrepareSourceData (sample_env None [[ahri]] Written) ''op'' []))
     = [Written, Written]
   \<and> last (messages (PrepareSourceData (sample_env None [[ahri]] Failed) ''op'' []))
     = last (messages (PrepareSourceData (sample_env None [[ahri]] Written) ''op'' []))
   \<and> finished (last (messages (PrepareSourceData (sample_env None [[ahri]] Failed) ''op'' [])))
   \<and> \<not> error (last (messages (PrepareSourceData (sample_env None [[ahri]] Failed) ''op'' [])))"
  by (simp add: PrepareSourceData_def fetch_extract_scan_def sample_env_def Let_def run_tasks_const build_files_def
      files_of_def ahri_def enumerate_eq_zip upt_rec finished_msg_def status_def)

text \<open>
  C7 at a failing extraction. The archive of the source \<open>op\<close> cannot be unpacked and the
  working directory still holds the file of Ahri from an earlier run. The stream ends
  with an error, and the run goes on: the two stale builds are written, no error message
  is sent and the run ends with the finished message.
\<close>

theorem extraction_failure_not_aborted:
  "fst (tar_x (sample_env (Some (Exn ''zlib: incorrect header check'')) [] Written)
       ''bytes'' ''.npm/op/'' [[ahri]]) = Some (Exn ''zlib: incorrect header check'')
   \<and> map snd (writes (PrepareSourceData
       (sample_env (Some (Exn ''zlib: incorrect header check'')) [] Written) ''op'' [[ahri]]))
     = [Written, Written]
   \<and> map (file_champion \<circ> fst) (writes (PrepareSourceData
       (sample_env (Some (Exn ''zlib: incorrect header check'')) [] Written) ''op'' [[ahri]]))
     = [''Ahri'', ''Ahri'']
   \<and> filter error (messages (PrepareSourceData
       (sample_env (Some (Exn ''zlib: incorrect header check'')) [] Written) ''op'' [[ahri]])) = []
   \<and> last (messages (PrepareSourceData
       (sample_env (Some (Exn ''zlib: incorrect header check'')) [] Written) ''op'' [[ahri]]))
     = finished_msg ''op''"
  by (simp add: PrepareSourceData_def fetch_extract_scan_def sample_env_def Let_def run_tasks_const build_files_def
      files_of_def ahri_def enumerate_eq_zip upt_rec finished_msg_def status_def make_file_def
      task_msgs_def applied_msg_def)

subsection \<open>Distinct file names\<close>

lemma digit_value_digit_char: "d < 10 \<Longrightarrow> digit_value (digit_char d) = d"
  by (simp add: digit_value_def digit_char_def)

lemma nat_of_string_snoc: "nat_of_string (s @ [c]) = 10 * nat_of_string s + digit_value c"
  by (simp add: nat_of_string_def)

lemma nat_of_string_of_nat: "nat_of_string (string_of_nat n) = n"
proof (induction n rule: string_of_nat.induct)
  case (1 n)
  show ?case
  proof (cases "n < 10")
    case True
    then show ?thesis
      by (subst string_of_nat.simps) (simp add: nat_of_string_def digit_value_digit_char)
  next
    case False
    then have "nat_of_string (string_of_nat n) = 10 * (n div 10) + n mod 10"
      using "1.IH"
      by (subst string_of_nat.simps) (simp add: nat_of_string_snoc digit_value_digit_char)
    then show ?thesis by simp
  qed
qed

lemma string_of_nat_inj: "string_of_nat m = string_of_nat n \<Longrightarrow> m = n"
  by (metis nat_of_string_of_nat)

lemma digit_char_not_hyphen: "d < 10 \<Longrightarrow> digit_char d \<noteq> CHR ''-''"
proof
  assume d: "d < 10" and eq: "digit_char d = CHR ''-''"
  have "(of_char (digit_char d) :: nat) = 48 + d"
    using d by (simp add: digit_char_def)
  moreover have "(of_char (CHR ''-'') :: nat) = 45" by simp
  ultimately show False using eq by simp
qed

lemma hyphen_notin_string_of_nat: "CHR ''-'' \<notin> set (string_of_nat n)"
proof (induction n rule: string_of_nat.induct)
  case (1 n)
  show ?case
  proof (cases "n < 10")
    case True
    then show ?thesis
      using digit_char_not_hyphen [of n] by (subst string_of_nat.simps) auto
  next
    case False
    then show ?thesis
      using "1.IH" digit_char_not_hyphen [of "n mod 10"]
      by (subst string_of_nat.simps) auto
  qed
qed

text \<open>Two strings cut at the first occurrence of a character agree part by part.\<close>

lemma split_first:
  "c \<notin> set xs \<Longrightarrow> c \<notin> set xs' \<Longrightarrow> xs @ c # ys = xs' @ c # ys' \<Longrightarrow> xs = xs' \<and> ys = ys'"
proof (induction xs arbitrary: xs')
  case Nil
  then show ?case by (cases xs') auto
next
  case (Cons x xs)
  then show ?case by (cases xs') auto
qed

text \<open>The same at the last occurrence.\<close>

lemma split_last:
  assumes "c \<notin> set ys" "c \<notin> set ys'" "xs @ c # ys = xs' @ c # ys'"
  shows "xs = xs' \<and> ys = ys'"
proof -
  have "rev (xs @ c # ys) = rev (xs' @ c # ys')" using assms(3) by simp
  then have "rev ys @ c # rev xs = rev ys' @ c # rev xs'" by simp
  then have "rev ys = rev ys' \<and> rev xs = rev xs'"
    using assms(1,2) split_first [of c "rev ys" "rev ys'" "rev xs" "rev xs'"] by simp
  then show ?thesis by simp
qed

lemma pStr_alias_inj:
  assumes sp: "CHR '' '' \<notin> set a" "CHR '' '' \<notin> set a'"
    and ne: "p \<noteq> Some []" "p' \<noteq> Some []"
    and eq: "pStr p @ a = pStr p' @ a'"
  shows "p = p' \<and> a = a'"
proof (cases p)
  case None
  show ?thesis
  proof (cases p')
    case None
    with \<open>p = None\<close> eq show ?thesis by (simp add: pStr_def)
  next
    case (Some t')
    then have "a = (t' @ '' -'') @ CHR '' '' # a'"
      using \<open>p = None\<close> eq ne by (simp add: pStr_def)
    then have "CHR '' '' \<in> set a" by simp
    with sp show ?thesis by simp
  qed
next
  case (Some t)
  show ?thesis
  proof (cases p')
    case None
    then have "a' = (t @ '' -'') @ CHR '' '' # a"
      using Some eq ne by (simp add: pStr_def)
    then have "CHR '' '' \<in> set a'" by simp
    with sp show ?thesis by simp
  next
    case (Some t')
    then have "(t @ '' -'') @ CHR '' '' # a = (t' @ '' -'') @ CHR '' '' # a'"
      using \<open>p = Some t\<close> eq ne by (simp add: pStr_def)
    then have "t @ '' -'' = t' @ '' -'' \<and> a = a'"
      using sp by (rule_tac split_last) auto
    then show ?thesis using Some \<open>p = Some t\<close> by simp
  qed
qed

lemma make_fileName_inj:
  assumes sp: "CHR '' '' \<notin> set a" "CHR '' '' \<notin> set a'"
    and ne: "p \<noteq> Some []" "p' \<noteq> Some []"
    and eq: "make_fileName src p a i = make_fileName src p' a' i'"
  shows "a = a' \<and> p = p' \<and> i = i'"
proof -
  have "(pStr p @ a) @ CHR ''-'' # string_of_nat (i + 1)
      = (pStr p' @ a') @ CHR ''-'' # string_of_nat (i' + 1)"
    using eq by (simp add: make_fileName_def)
  then have "pStr p @ a = pStr p' @ a' \<and> string_of_nat (i + 1) = string_of_nat (i' + 1)"
    by (rule split_last [OF hyphen_notin_string_of_nat hyphen_notin_string_of_nat])
  then show ?thesis
    using pStr_alias_inj [OF sp ne] string_of_nat_inj [of "i + 1" "i' + 1"] by simp
qed

subsection \<open>Writing twice\<close>

lemma map_add_twice: "(m ++ g) ++ g = m ++ g"
  by (rule ext) (simp add: map_add_def split: option.splits)

lemma map_add_snoc: "m ++ map_of (kvs @ [(k, v)]) = m(k \<mapsto> v) ++ map_of kvs"
  by (rule ext) (simp add: map_add_def split: option.splits)

text \<open>
  The file system after the writes in a given order: the earlier one, overwritten by what
  was written, a later write of a path replacing an earlier one.
\<close>

lemma exec_writes_spec_fs:
  "snd (exec_writes (saveToFile_spec fails champions_dir dir) ts fs)
     = fs ++ map_of (rev (written_files fails champions_dir dir (map snd ts)))"
proof (induction ts arbitrary: fs)
  case Nil
  show ?case by (simp add: written_files_def)
next
  case (Cons t ts)
  let ?W = "saveToFile_spec fails champions_dir dir"
  let ?f = "snd t"
  let ?path = "champions_dir dir @ ''/'' @ fileName ?f"
  let ?rest = "written_files fails champions_dir dir (map snd ts)"
  have step: "snd (exec_writes ?W (t # ts) fs) = snd (exec_writes ?W ts (snd (?W ?f fs)))"
    by (simp add: split_beta)
  show ?case
  proof (cases "fails ?path")
    case True
    then have "snd (?W ?f fs) = fs"
      and "written_files fails champions_dir dir (map snd (t # ts)) = ?rest"
      by (simp_all add: saveToFile_spec_def written_files_def)
    then show ?thesis using step Cons.IH [of fs] by simp
  next
    case False
    then have w: "snd (?W ?f fs) = fs(?path \<mapsto> ?f)"
      and wf: "written_files fails champions_dir dir (map snd (t # ts)) = (?path, ?f) # ?rest"
      by (simp_all add: saveToFile_spec_def written_files_def)
    have "snd (exec_writes ?W (t # ts) fs) = snd (exec_writes ?W ts (fs(?path \<mapsto> ?f)))"
      using step w by (simp only:)
    also have "\<dots> = fs(?path \<mapsto> ?f) ++ map_of (rev ?rest)"
      by (rule Cons.IH)
    also have "\<dots> = fs ++ map_of (rev ?rest @ [(?path, ?f)])"
      by (rule map_add_snoc [symmetric])
    also have "\<dots> = fs ++ map_of (rev (written_files fails champions_dir dir (map snd (t # ts))))"
      by (simp only: wf rev.simps)
    finally show ?thesis .
  qed
qed

lemma distinct_written_files:
  assumes "distinct (map fileName zs)"
  shows "distinct (map fst (written_files fails champions_dir dir zs))"
proof -
  let ?ok = "\<lambda>f. \<not> fails (champions_dir dir @ ''/'' @ fileName f)"
  have "map fst (written_files fails champions_dir dir zs)
      = map ((@) (champions_dir dir @ ''/'')) (map fileName (filter ?ok zs))"
    by (simp add: written_files_def comp_def)
  moreover have "distinct (map fileName (filter ?ok zs))"
    using assms by (rule distinct_map_filter)
  ultimately show ?thesis
    by (simp add: distinct_map inj_on_def)
qed

lemma set_written_files:
  "set ys = set zs \<Longrightarrow>
   set (written_files fails champions_dir dir ys) = set (written_files fails champions_dir dir zs)"
  by (simp add: written_files_def)

lemma distinct_names_permuted:
  assumes "distinct (map fileName fl)" and "set ys = set fl" and "length ys = length fl"
  shows "distinct (map fileName ys)"
proof (rule card_distinct)
  have "card (set (map fileName ys)) = card (set (map fileName fl))"
    using assms(2) by simp
  also have "\<dots> = length (map fileName fl)"
    using assms(1) by (rule distinct_card)
  finally show "card (set (map fileName ys)) = length (map fileName ys)"
    using assms(3) by simp
qed

text \<open>With distinct file names the order of completion does not matter.\<close>

lemma written_files_any_order:
  assumes "distinct (map fileName fl)" and "set ys = set fl" and "length ys = length fl"
  shows "map_of (rev (written_files fails champions_dir dir ys))
    = map_of (written_files fails champions_dir dir fl)"
proof -
  have "distinct (map fst (written_files fails champions_dir dir ys))"
    using distinct_names_permuted [OF assms] by (rule distinct_written_files)
  then have "distinct (map fst (rev (written_files fails champions_dir dir ys)))"
    by (simp add: rev_map [symmetric])
  moreover have "distinct (map fst (written_files fails champions_dir dir fl))"
    using assms(1) by (rule distinct_written_files)
  moreover have "set (rev (written_files fails champions_dir dir ys))
      = set (written_files fails champions_dir dir fl)"
    using set_written_files [OF assms(2)] by simp
  ultimately show ?thesis
    by (simp only: map_of_inject_set)
qed

lemma run_tasks_spec_fs:
  assumes "distinct (map fileName fl)"
  shows "snd (run_tasks (saveToFile_spec fails champions_dir dir) time fl fs)
    = fs ++ map_of (written_files fails champions_dir dir fl)"
proof -
  let ?ys = "map snd (completion_order time fl)"
  have "set ?ys = set (map snd (enumerate 0 fl))"
    by (simp only: set_map set_completion_order)
  then have s: "set ?ys = set fl" by simp
  have l: "length ?ys = length fl" by (simp add: completion_order_def)
  have "snd (run_tasks (saveToFile_spec fails champions_dir dir) time fl fs)
      = fs ++ map_of (rev (written_files fails champions_dir dir ?ys))"
    by (simp add: run_tasks_def split_beta exec_writes_spec_fs)
  then show ?thesis
    by (simp only: written_files_any_order [OF assms s l])
qed

lemma run_tasks_spec_results:
  "fst (run_tasks (saveToFile_spec fails champions_dir dir) time fl fs)
     = map (\<lambda>f. (f, if fails (champions_dir dir @ ''/'' @ fileName f) then Failed else Written)) fl"
  by (rule run_tasks_results) (simp add: saveToFile_spec_def Let_def)

lemma run_tasks_spec_idem:
  assumes "distinct (map fileName fl)"
  shows "run_tasks (saveToFile_spec fails champions_dir dir) time2 fl
       (snd (run_tasks (saveToFile_spec fails champions_dir dir) time1 fl fs))
     = run_tasks (saveToFile_spec fails champions_dir dir) time1 fl fs"
proof (rule prod_eqI)
  show "fst (run_tasks (saveToFile_spec fails champions_dir dir) time2 fl
          (snd (run_tasks (saveToFile_spec fails champions_dir dir) time1 fl fs)))
      = fst (run_tasks (saveToFile_spec fails champions_dir dir) time1 fl fs)"
    by (simp only: run_tasks_spec_results)
next
  show "snd (run_tasks (saveToFile_spec fails champions_dir dir) time2 fl
          (snd (run_tasks (saveToFile_spec fails champions_dir dir) time1 fl fs)))
      = snd (run_tasks (saveToFile_spec fails champions_dir dir) time1 fl fs)"
    by (simp only: run_tasks_spec_fs [OF assms] map_add_twice)
qed

text \<open>
  Two builds of one file name: the content that stays is that of the write that completes
  last.
\<close>

lemma colliding_writes_depend_on_order:
  "snd (run_tasks (saveToFile_spec (\<lambda>p. False) (\<lambda>d. d) ''dir'') (\<lambda>i. i)
         [\<lparr>item_build = 0::nat, file_champion = ''Ahri'', file_position = Some ''top'',
            fileName = ''[OP] top - Ahri-1''\<rparr>,
          \<lparr>item_build = 0, file_champion = ''top - Ahri'', file_position = None,
            fileName = ''[OP] top - Ahri-1''\<rparr>] Map.empty) ''dir/[OP] top - Ahri-1''
     = Some \<lparr>item_build = 0, file_champion = ''top - Ahri'', file_position = None,
            fileName = ''[OP] top - Ahri-1''\<rparr>
   \<and> snd (run_tasks (saveToFile_spec (\<lambda>p. False) (\<lambda>d. d) ''dir'') (\<lambda>i. 1 - i)
         [\<lparr>item_build = 0::nat, file_champion = ''Ahri'', file_position = Some ''top'',
            fileName = ''[OP] top - Ahri-1''\<rparr>,
          \<lparr>item_build = 0, file_champion = ''top - Ahri'', file_position = None,
            fileName = ''[OP] top - Ahri-1''\<rparr>] Map.empty) ''dir/[OP] top - Ahri-1''
     = Some \<lparr>item_build = 0, file_champion = ''Ahri'', file_position = Some ''top'',
            fileName = ''[OP] top - Ahri-1''\<rparr>"
  by (simp add: run_tasks_def completion_order_def saveToFile_spec_def)

text \<open>
  C4, as the code has it. For a source, the file names of two builds whose champion
  aliases contain no space and whose positions, where present, are not empty are equal
  only if alias, position and index are equal. And with the build writer of the spec,
  when the file names of the builds of a run are distinct, writing the builds of the same
  source and the same scanned files a second time gives the same results and leaves the
  files written by the first time as they are, the same paths with the same contents,
  in whatever order the writes of either run complete.
\<close>

theorem fileName_injective_and_rewrite_idempotent:
  assumes "CHR '' '' \<notin> set a" and "CHR '' '' \<notin> set a'"
    and "p \<noteq> Some []" and "p' \<noteq> Some []"
  shows "(make_fileName src p a i = make_fileName src p' a' i') = ((a, p, i) = (a', p', i'))
    \<and> (distinct (map fileName (build_files src files)) \<longrightarrow>
        run_tasks (saveToFile_spec fails champions_dir dir) time2 (build_files src files)
          (snd (run_tasks (saveToFile_spec fails champions_dir dir) time1
                 (build_files src files) fs))
        = run_tasks (saveToFile_spec fails champions_dir dir) time1 (build_files src files) fs)"
proof (intro conjI impI)
  show "(make_fileName src p a i = make_fileName src p' a' i') = ((a, p, i) = (a', p', i'))"
    using make_fileName_inj [OF assms, of src i i'] by auto
next
  assume "distinct (map fileName (build_files src files))"
  then show "run_tasks (saveToFile_spec fails champions_dir dir) time2 (build_files src files)
          (snd (run_tasks (saveToFile_spec fails champions_dir dir) time1
                 (build_files src files) fs))
        = run_tasks (saveToFile_spec fails champions_dir dir) time1 (build_files src files) fs"
    by (rule run_tasks_spec_idem)
qed

text \<open>
  C4 for Ahri at the position top and Ahri without position: two names, and the two
  builds written a second time in the other order leave the same files.
\<close>

theorem fileName_injective_and_rewrite_idempotent_witness:
  "CHR '' '' \<notin> set ''Ahri'' \<and> Some ''top'' \<noteq> Some [] \<and> None \<noteq> Some ([] :: string)
   \<and> make_fileName ''op'' (Some ''top'') ''Ahri'' 0 \<noteq> make_fileName ''op'' None ''Ahri'' 0
   \<and> distinct (map fileName (build_files ''op''
        [[\<lparr>championAlias = ''Ahri'', position = Some ''top'', itemBuilds = [0::nat]\<rparr>,
          \<lparr>championAlias = ''Ahri'', position = None, itemBuilds = [0]\<rparr>]]))
   \<and> run_tasks (saveToFile_spec (\<lambda>path. False) (\<lambda>d. d @ ''/Config/Champions'') ''C:/LoL'')
        (\<lambda>i. 1 - i) (build_files ''op''
          [[\<lparr>championAlias = ''Ahri'', position = Some ''top'', itemBuilds = [0::nat]\<rparr>,
            \<lparr>championAlias = ''Ahri'', position = None, itemBuilds = [0]\<rparr>]])
        (snd (run_tasks (saveToFile_spec (\<lambda>path. False) (\<lambda>d. d @ ''/Config/Champions'') ''C:/LoL'')
           (\<lambda>i. i) (build_files ''op''
             [[\<lparr>championAlias = ''Ahri'', position = Some ''top'', itemBuilds = [0::nat]\<rparr>,
               \<lparr>championAlias = ''Ahri'', position = None, itemBuilds = [0]\<rparr>]]) Map.empty))
     = run_tasks (saveToFile_spec (\<lambda>path. False) (\<lambda>d. d @ ''/Config/Champions'') ''C:/LoL'')
        (\<lambda>i. i) (build_files ''op''
          [[\<lparr>championAlias = ''Ahri'', position = Some ''top'', itemBuilds = [0::nat]\<rparr>,
            \<lparr>championAlias = ''Ahri'', position = None, itemBuilds = [0]\<rparr>]]) Map.empty"
proof -
  have h1: "CHR '' '' \<notin> set ''Ahri''" by simp
  have h2: "Some ''top'' \<noteq> Some []" by simp
  have h3: "None \<noteq> Some ([] :: string)" by simp
  have d: "distinct (map fileName (build_files ''op''
        [[\<lparr>championAlias = ''Ahri'', position = Some ''top'', itemBuilds = [0::nat]\<rparr>,
          \<lparr>championAlias = ''Ahri'', position = None, itemBuilds = [0]\<rparr>]]))"
    by (simp add: build_files_def files_of_def make_file_def make_fileName_def pStr_def)
  show ?thesis
    using h1 d fileName_injective_and_rewrite_idempotent [OF h1 h1 h2 h3, of "''op''" 0 0
        "[[\<lparr>championAlias = ''Ahri'', position = Some ''top'', itemBuilds = [0::nat]\<rparr>,
           \<lparr>championAlias = ''Ahri'', position = None, itemBuilds = [0]\<rparr>]]"
        "\<lambda>path. False" "\<lambda>d. d @ ''/Config/Champions''" "''C:/LoL''" "\<lambda>i. 1 - i" "\<lambda>i. i"
        Map.empty]
    by simp
qed

text \<open>
  C4 as stated fails: Ahri at the position top and a champion alias \<open>top - Ahri\<close>
  without position are two tuples with one file name, so a package holding both gives
  two builds of the same name.
\<close>

theorem fileName_collision:
  "(''Ahri'', Some ''top'', 0::nat) \<noteq> (''top - Ahri'', None, 0)
   \<and> make_fileName ''op'' (Some ''top'') ''Ahri'' 0 = make_fileName ''op'' None ''top - Ahri'' 0
   \<and> \<not> distinct (map fileName (build_files ''op''
        [[\<lparr>championAlias = ''Ahri'', position = Some ''top'', itemBuilds = [0::nat]\<rparr>,
          \<lparr>championAlias = ''top - Ahri'', position = None, itemBuilds = [0]\<rparr>]]))"
  by (simp add: build_files_def files_of_def make_file_def make_fileName_def pStr_def)


section \<open>Properties of the \<open>applyRunePage\<close> handler\<close>

lemma settle_length: "length (in_flight (applyRunePage_settle job st)) \<le> length (in_flight st)"
  by (simp add: applyRunePage_settle_def)

lemma apply_step_single:
  "length (in_flight st) \<le> 1 \<Longrightarrow> length (in_flight (fst (apply_step isDev ev st))) \<le> 1"
proof (cases ev)
  case (ApplyRunePage job)
  assume "length (in_flight st) \<le> 1"
  then show ?thesis using ApplyRunePage
    by (simp add: on_applyRunePage_def applyRunePage_begin_def)
next
  case (Settled job r)
  assume "length (in_flight st) \<le> 1"
  then show ?thesis using Settled settle_length [of job st]
    by (simp add: on_settled_def)
qed

lemma apply_run_single:
  "length (in_flight st) \<le> 1 \<Longrightarrow> length (in_flight (fst (apply_run isDev evs st))) \<le> 1"
proof (induction evs arbitrary: st)
  case Nil
  then show ?case by simp
next
  case (Cons ev evs)
  have "length (in_flight (fst (apply_step isDev ev st))) \<le> 1"
    using Cons.prems by (rule apply_step_single)
  then have "length (in_flight (fst (apply_run isDev evs (fst (apply_step isDev ev st))))) \<le> 1"
    by (rule Cons.IH)
  then show ?case by (simp add: split_beta)
qed

lemma busy_step:
  "in_flight st \<noteq> [] \<Longrightarrow>
   apply_step isDev (ApplyRunePage job) st = (st, ConsoleError job Busy # finally_block isDev job)"
  by (simp add: on_applyRunePage_def applyRunePage_begin_def)

text \<open>
  C9. Whatever calls and settlements arrive, starting with no call pending, at most one
  apply call is in flight. A call that arrives while one is pending is rejected at once
  with \<open>Busy\<close> and the applier is left as it was, nothing queued; what happens
  afterwards, the result of the pending call included, is what happens without the
  rejected call, after the handler's console line for it (and the done message of
  development mode).
\<close>

theorem single_in_flight:
  "length (in_flight (fst (apply_run isDev evs idle))) \<le> 1
   \<and> (in_flight st \<noteq> [] \<longrightarrow>
        applyRunePage_begin job st = (Some Busy, st)
        \<and> apply_run isDev (ApplyRunePage job # evs) st
            = (fst (apply_run isDev evs st),
               ConsoleError job Busy # finally_block isDev job @ snd (apply_run isDev evs st)))"
proof (intro conjI impI)
  show "length (in_flight (fst (apply_run isDev evs idle))) \<le> 1"
    by (rule apply_run_single) (simp add: idle_def)
next
  assume "in_flight st \<noteq> []"
  then show "applyRunePage_begin job st = (Some Busy, st)"
    by (simp add: applyRunePage_begin_def)
next
  assume "in_flight st \<noteq> []"
  then show "apply_run isDev (ApplyRunePage job # evs) st
            = (fst (apply_run isDev evs st),
               ConsoleError job Busy # finally_block isDev job @ snd (apply_run isDev evs st))"
    using busy_step [of st isDev job] by (simp add: split_beta)
qed

text \<open>
  C9 for a call \<open>b\<close> that arrives while the call \<open>a\<close> is pending: \<open>b\<close> is rejected with
  \<open>Busy\<close>, and \<open>a\<close> is reported done when it settles.
\<close>

theorem single_in_flight_witness:
  "in_flight (fst (apply_run False [ApplyRunePage ''a''] idle)) \<noteq> []
   \<and> applyRunePage_begin ''b'' (fst (apply_run False [ApplyRunePage ''a''] idle))
       = (Some Busy, fst (apply_run False [ApplyRunePage ''a''] idle))
   \<and> snd (apply_run False [ApplyRunePage ''b'', Settled ''a'' None]
        (fst (apply_run False [ApplyRunePage ''a''] idle)))
       = [ConsoleError ''b'' Busy, Done ''a'']"
  using single_in_flight [of False "[Settled ''a'' None]"
      "fst (apply_run False [ApplyRunePage ''a''] idle)" "''b''"]
  by (simp add: idle_def on_applyRunePage_def applyRunePage_begin_def on_settled_def
      applyRunePage_settle_def finally_block_def)

end
